theory Spec2Isabelle
  imports Main "HOL-Library.Word" "HOL-Library.Log_Nat"
begin

section \<open>SKMA-FON monitoring module: data model\<close>

text \<open>
  The module (\<^verbatim>\<open>src/kernel/monitoring_module.c\<close>) keeps one \<^verbatim>\<open>struct site_stats\<close>
  per site at the start of a kmalloc'ed buffer of \<^verbatim>\<open>BUFFER_SIZE = 4 * PAGE_SIZE\<close> bytes.
  A kernel timer rewrites the records once per second, a proc file prints them, and the
  same proc file can be mmap'ed.
\<close>

type_synonym u32 = "32 word"
type_synonym u64 = "64 word"

text \<open>
  \<^verbatim>\<open>struct site_stats\<close>. The name is the C string held in \<^verbatim>\<open>char site_name[32]\<close>
  (the bytes before the first NUL). The \<^verbatim>\<open>float utilization\<close> field holds the rational
  number that the stored binary32 value denotes.
\<close>

record site_stats =
  site_name :: string
  timestamp :: u64
  throughput_gbps :: u32
  error_count :: u32
  ber_errors :: u32
  link_status :: u32
  utilization :: rat
  reserved :: "u32 list"

definition NUM_SITES :: nat where
  "NUM_SITES = 4"

definition site_names :: "string list" where
  "site_names = [''MicrosoftDC'', ''Dallas'', ''Dobbins'', ''Stone'']"

subsection \<open>IEEE-754 arithmetic of the utilization expression\<close>

text \<open>
  \<^verbatim>\<open>(sites_data[i].throughput_gbps / 2000.0) * 100\<close> is evaluated in binary64 (the
  \<^verbatim>\<open>u32\<close> and the \<^verbatim>\<open>int\<close> convert exactly) and the result is converted to binary32 by
  the assignment. Each operation rounds the exact result to the nearest value with
  \<open>p\<close> significant bits, ties to even (\<open>p = 53\<close> for binary64, \<open>p = 24\<close> for binary32).
  The exponent is left unbounded: for every \<^verbatim>\<open>u32\<close> throughput the values of this
  expression are \<open>0\<close> or lie between \<open>1/2000\<close> and \<open>2^28\<close>, inside the normal range of
  both formats.
\<close>

definition round_even :: "rat \<Rightarrow> int" where
  "round_even y = (let f = \<lfloor>y\<rfloor>; d = y - of_int f in
     if d < 1/2 then f else if 1/2 < d then f + 1 else if even f then f else f + 1)"

text \<open>The binade of a positive rational \<open>x\<close>: the \<open>e\<close> with \<open>2^e \<le> x < 2^(e+1)\<close>.\<close>

definition expo :: "rat \<Rightarrow> int" where
  "expo x = (let (a, b) = quotient_of x; k = bitlen a - bitlen b in
     if 2 powi k \<le> x then k else k - 1)"

definition fp_round :: "nat \<Rightarrow> rat \<Rightarrow> rat" where
  "fp_round p x = (if x = 0 then 0 else
     let u = 2 powi (expo \<bar>x\<bar> - int p + 1) in of_int (round_even (x / u)) * u)"

definition double_div :: "rat \<Rightarrow> rat \<Rightarrow> rat" where
  "double_div a b = fp_round 53 (a / b)"

definition double_mul :: "rat \<Rightarrow> rat \<Rightarrow> rat" where
  "double_mul a b = fp_round 53 (a * b)"

definition double_to_float :: "rat \<Rightarrow> rat" where
  "double_to_float x = fp_round 24 x"

definition calc_utilization :: "u32 \<Rightarrow> rat" where
  "calc_utilization t = double_to_float (double_mul (double_div (of_int (uint t)) 2000) 100)"

section \<open>The timer callback \<^verbatim>\<open>update_stats_timer\<close>\<close>

text \<open>
  What one loop iteration reads from outside the module: the wall clock
  (\<^verbatim>\<open>ktime_get_real_seconds\<close>, stored into the \<^verbatim>\<open>u64\<close> field) and three draws of
  \<^verbatim>\<open>get_random_bytes\<close> into \<^verbatim>\<open>rand_val\<close>.
\<close>

record site_input =
  now :: u64
  rand_throughput :: u32
  rand_errors :: u32
  rand_ber :: u32

text \<open>The six assignments of the loop body, in source order.\<close>

definition set_timestamp :: "u64 \<Rightarrow> site_stats \<Rightarrow> site_stats" where
  "set_timestamp t r = r\<lparr>timestamp := t\<rparr>"

definition set_throughput :: "u32 \<Rightarrow> site_stats \<Rightarrow> site_stats" where
  "set_throughput rv r = r\<lparr>throughput_gbps := 800 + rv mod 1200\<rparr>"

definition add_errors :: "u32 \<Rightarrow> site_stats \<Rightarrow> site_stats" where
  "add_errors rv r = r\<lparr>error_count := error_count r + rv mod 3\<rparr>"

definition add_ber :: "u32 \<Rightarrow> site_stats \<Rightarrow> site_stats" where
  "add_ber rv r = r\<lparr>ber_errors := ber_errors r + rv mod 2\<rparr>"

definition set_utilization :: "site_stats \<Rightarrow> site_stats" where
  "set_utilization r = r\<lparr>utilization := calc_utilization (throughput_gbps r)\<rparr>"

definition set_link_up :: "site_stats \<Rightarrow> site_stats" where
  "set_link_up r = r\<lparr>link_status := 1\<rparr>"

definition update_site :: "site_input \<Rightarrow> site_stats \<Rightarrow> site_stats" where
  "update_site e r =
     set_link_up (set_utilization (add_ber (rand_ber e) (add_errors (rand_errors e)
       (set_throughput (rand_throughput e) (set_timestamp (now e) r)))))"

text \<open>
  \<^verbatim>\<open>for (i = 0; i < NUM_SITES; i++)\<close> over \<^verbatim>\<open>sites_data\<close>; \<open>env i\<close> is what iteration
  \<open>i\<close> reads from the clock and the random source.
\<close>

definition update_sites :: "(nat \<Rightarrow> site_input) \<Rightarrow> site_stats list \<Rightarrow> site_stats list" where
  "update_sites env s = fold (\<lambda>i s. s[i := update_site (env i) (s ! i)]) [0..<NUM_SITES] s"

section \<open>Module state, startup and shutdown\<close>

text \<open>
  The globals of the module and the kernel resources it holds: whether the kmalloc'ed
  buffer is currently allocated, the records at its start, the registered proc paths,
  whether \<^verbatim>\<open>update_timer\<close> is pending, and the user mappings that \<^verbatim>\<open>remap_pfn_range\<close>
  has installed (start address, first page frame, length).
\<close>

record module_state =
  buffer_live :: bool
  sites_data :: "site_stats list"
  procfs :: "string list"
  timer_pending :: bool
  mappings :: "(u64 \<times> u64 \<times> u64) list"

datatype errno = ENOMEM | EINVAL | EAGAIN

definition unloaded :: module_state where
  "unloaded = \<lparr>buffer_live = False, sites_data = [], procfs = [], timer_pending = False,
     mappings = []\<rparr>"

definition update_stats_timer :: "(nat \<Rightarrow> site_input) \<Rightarrow> module_state \<Rightarrow> module_state" where
  "update_stats_timer env k =
     k\<lparr>sites_data := update_sites env (sites_data k), timer_pending := True\<rparr>"

text \<open>A run of successive timer callbacks, one environment per tick.\<close>

definition run_ticks :: "(nat \<Rightarrow> site_input) list \<Rightarrow> module_state \<Rightarrow> module_state" where
  "run_ticks envs k = fold update_stats_timer envs k"

text \<open>The buffer after \<^verbatim>\<open>memset(shared_buffer, 0, BUFFER_SIZE)\<close>, seen as records.\<close>

definition zero_site :: site_stats where
  "zero_site = \<lparr>site_name = [], timestamp = 0, throughput_gbps = 0, error_count = 0,
     ber_errors = 0, link_status = 0, utilization = 0, reserved = replicate 8 0\<rparr>"

text \<open>
  One iteration of the initialisation loop. \<^verbatim>\<open>strncpy(.., 31)\<close> into zeroed bytes
  followed by \<^verbatim>\<open>site_name[31] = 0\<close> leaves the first 31 characters of the source.
\<close>

definition init_site :: "nat \<Rightarrow> u64 \<Rightarrow> site_stats \<Rightarrow> site_stats" where
  "init_site i t r = r\<lparr>site_name := take 31 (site_names ! i), timestamp := t,
     throughput_gbps := 1000, error_count := 0, ber_errors := 0, link_status := 1,
     utilization := 50\<rparr>"

definition init_sites :: "(nat \<Rightarrow> u64) \<Rightarrow> site_stats list" where
  "init_sites clock =
     fold (\<lambda>i s. s[i := init_site i (clock i) (s ! i)]) [0..<NUM_SITES]
       (replicate NUM_SITES zero_site)"

text \<open>
  What startup depends on outside the module: whether \<^verbatim>\<open>kmalloc\<close>, \<^verbatim>\<open>proc_mkdir\<close>
  and \<^verbatim>\<open>proc_create\<close> succeed, and the clock read in each initialisation iteration.
\<close>

record init_env =
  kmalloc_ok :: bool
  proc_mkdir_ok :: bool
  proc_create_ok :: bool
  init_clock :: "nat \<Rightarrow> u64"

definition kfree_buffer :: "module_state \<Rightarrow> module_state" where
  "kfree_buffer k = k\<lparr>buffer_live := False\<rparr>"

definition remove_proc_entry :: "string \<Rightarrow> module_state \<Rightarrow> module_state" where
  "remove_proc_entry p k = k\<lparr>procfs := removeAll p (procfs k)\<rparr>"

definition skma_fon_init :: "init_env \<Rightarrow> module_state \<Rightarrow> (errno + unit) \<times> module_state" where
  "skma_fon_init e k =
     (if \<not> kmalloc_ok e then (Inl ENOMEM, k)
      else
        let k1 = k\<lparr>buffer_live := True, sites_data := init_sites (init_clock e)\<rparr> in
        if \<not> proc_mkdir_ok e then (Inl ENOMEM, kfree_buffer k1)
        else
          let k2 = k1\<lparr>procfs := ''optifiber'' # procfs k1\<rparr> in
          if \<not> proc_create_ok e
          then (Inl ENOMEM, kfree_buffer (remove_proc_entry ''optifiber'' k2))
          else
            (Inr (), k2\<lparr>procfs := ''optifiber/myinfo'' # procfs k2, timer_pending := True\<rparr>))"

section \<open>The mmap handler \<^verbatim>\<open>proc_mmap\<close>\<close>

text \<open>
  \<^verbatim>\<open>PAGE_SHIFT\<close> comes from the kernel headers and is a parameter;
  \<^verbatim>\<open>PAGE_SIZE\<close> is \<^verbatim>\<open>1UL << PAGE_SHIFT\<close>. \<^verbatim>\<open>unsigned long\<close> is 64 bits wide.
\<close>

definition PAGE_SIZE :: "nat \<Rightarrow> u64" where
  "PAGE_SIZE page_shift = push_bit page_shift 1"

definition BUFFER_SIZE :: "nat \<Rightarrow> u64" where
  "BUFFER_SIZE page_shift = 4 * PAGE_SIZE page_shift"

record vm_area =
  vm_start :: u64
  vm_end :: u64

text \<open>
  What the handler depends on outside the module: the physical address of the buffer
  (\<^verbatim>\<open>virt_to_phys\<close>) and the return value of \<^verbatim>\<open>remap_pfn_range\<close>, which installs the
  mapping when it returns \<open>0\<close>.
\<close>

record mmap_env =
  buffer_phys :: u64
  remap_ret :: int

definition proc_mmap ::
  "nat \<Rightarrow> mmap_env \<Rightarrow> vm_area \<Rightarrow> module_state \<Rightarrow> (errno + unit) \<times> module_state" where
  "proc_mmap page_shift e vma k =
     (let size = vm_end vma - vm_start vma in
      if size > BUFFER_SIZE page_shift then (Inl EINVAL, k)
      else
        let pfn = drop_bit page_shift (buffer_phys e) in
        if remap_ret e \<noteq> 0 then (Inl EAGAIN, k)
        else (Inr (), k\<lparr>mappings := (vm_start vma, pfn, size) # mappings k\<rparr>))"

section \<open>The proc read handler \<^verbatim>\<open>proc_show\<close>\<close>

text \<open>
  Each \<^verbatim>\<open>seq_printf\<close> call emits one line. The lines are kept as values (the
  \<^verbatim>\<open>printf\<close> formatting of numbers is not modelled); the link status line carries the
  string chosen by \<^verbatim>\<open>link_status ? "UP" : "DOWN"\<close>.
\<close>

datatype report_line =
    Line_title | Line_rule | Line_site string | Line_timestamp u64 | Line_throughput u32
  | Line_errors u32 | Line_ber u32 | Line_utilization rat | Line_link string | Line_blank

definition show_site :: "site_stats \<Rightarrow> report_line list" where
  "show_site r = [Line_site (site_name r), Line_timestamp (timestamp r),
     Line_throughput (throughput_gbps r), Line_errors (error_count r), Line_ber (ber_errors r),
     Line_utilization (utilization r),
     Line_link (if link_status r \<noteq> 0 then ''UP'' else ''DOWN''), Line_blank]"

definition proc_show_lines :: "site_stats list \<Rightarrow> report_line list" where
  "proc_show_lines s = [Line_title, Line_rule] @ concat (map (\<lambda>i. show_site (s ! i)) [0..<NUM_SITES])"

definition proc_show :: "module_state \<Rightarrow> int \<times> report_line list" where
  "proc_show k = (0, proc_show_lines (sites_data k))"

section \<open>The reader and the timer callback running at the same time\<close>

text \<open>
  Neither \<^verbatim>\<open>proc_show\<close> nor \<^verbatim>\<open>update_stats_timer\<close> takes a lock, so the callback
  (softirq context, possibly another CPU) can run between any two statements of the
  reader. The interleavings are modelled at statement granularity, which is the
  coarsest the code allows: one step of the updater is one assignment of the loop body
  (\<open>6\<close> per site, \<open>site_steps\<close>), one step of the reader is one \<^verbatim>\<open>seq_printf\<close>, which
  reads the field it prints from the buffer as it is at that moment. A schedule says
  which thread moves next; a thread that has finished ignores its turns.
\<close>

definition site_steps :: "site_input \<Rightarrow> (site_stats \<Rightarrow> site_stats) list" where
  "site_steps e = [set_timestamp (now e), set_throughput (rand_throughput e),
     add_errors (rand_errors e), add_ber (rand_ber e), set_utilization, set_link_up]"

definition write_step :: "(nat \<Rightarrow> site_input) \<Rightarrow> nat \<Rightarrow> site_stats list \<Rightarrow> site_stats list" where
  "write_step env m s = (let i = m div 6 in s[i := (site_steps (env i) ! (m mod 6)) (s ! i)])"

datatype thread = Reader | Updater

record race =
  store :: "site_stats list"
  writes_done :: nat
  prints_done :: nat
  printed :: "report_line list"

definition race_start :: "site_stats list \<Rightarrow> race" where
  "race_start s = \<lparr>store = s, writes_done = 0, prints_done = 0, printed = []\<rparr>"

fun race_step :: "(nat \<Rightarrow> site_input) \<Rightarrow> thread \<Rightarrow> race \<Rightarrow> race" where
  "race_step env Reader c =
     (if prints_done c < 2 + 8 * NUM_SITES
      then c\<lparr>prints_done := prints_done c + 1,
             printed := printed c @ [proc_show_lines (store c) ! prints_done c]\<rparr>
      else c)"
| "race_step env Updater c =
     (if writes_done c < 6 * NUM_SITES
      then c\<lparr>writes_done := writes_done c + 1,
             store := write_step env (writes_done c) (store c)\<rparr>
      else c)"

definition race_run :: "(nat \<Rightarrow> site_input) \<Rightarrow> thread list \<Rightarrow> race \<Rightarrow> race" where
  "race_run env sched c = fold (race_step env) sched c"

text \<open>
  The record after the first \<open>n\<close> assignments of one loop iteration, the buffer after
  the first \<open>w\<close> assignments of the callback, and every state that record \<open>i\<close> goes
  through during one callback, as \<^verbatim>\<open>proc_show\<close> would print it.
\<close>

definition site_prefix :: "site_input \<Rightarrow> nat \<Rightarrow> site_stats \<Rightarrow> site_stats" where
  "site_prefix e n r = fold (\<lambda>g r. g r) (take n (site_steps e)) r"

definition writes :: "(nat \<Rightarrow> site_input) \<Rightarrow> nat \<Rightarrow> site_stats list \<Rightarrow> site_stats list" where
  "writes env w s = fold (write_step env) [0..<w] s"

definition site_history :: "(nat \<Rightarrow> site_input) \<Rightarrow> site_stats list \<Rightarrow> nat \<Rightarrow> report_line list list" where
  "site_history env s i =
     map (\<lambda>w. show_site (writes env w s ! i)) [0..<Suc (6 * NUM_SITES)]"

section \<open>Concrete inputs\<close>

text \<open>
  A successful load at wall-clock second 1700000000, a load whose \<^verbatim>\<open>proc_create\<close>
  fails, the draws of one tick a second later, a record whose counters are at
  \<open>2^32 - 1\<close> together with a tick that sees the wall clock set back, and mmap requests
  on a machine with 4 KiB pages (\<^verbatim>\<open>BUFFER_SIZE = 16384\<close>).
\<close>

definition boot_clock :: "nat \<Rightarrow> u64" where
  "boot_clock i = 1700000000"

definition boot_env :: init_env where
  "boot_env = \<lparr>kmalloc_ok = True, proc_mkdir_ok = True, proc_create_ok = True,
     init_clock = boot_clock\<rparr>"

definition loaded :: module_state where
  "loaded = snd (skma_fon_init boot_env unloaded)"

definition no_proc_entry :: init_env where
  "no_proc_entry = \<lparr>kmalloc_ok = True, proc_mkdir_ok = True, proc_create_ok = False,
     init_clock = boot_clock\<rparr>"

definition tick_env :: "nat \<Rightarrow> site_input" where
  "tick_env i = \<lparr>now = 1700000001, rand_throughput = 0, rand_errors = 2, rand_ber = 1\<rparr>"

definition saturated_site :: site_stats where
  "saturated_site = \<lparr>site_name = ''MicrosoftDC'', timestamp = 1700000000,
     throughput_gbps = 1000, error_count = 0xFFFFFFFF, ber_errors = 0xFFFFFFFF,
     link_status = 1, utilization = 50, reserved = replicate 8 0\<rparr>"

definition back_input :: site_input where
  "back_input = \<lparr>now = 1600000000, rand_throughput = 0, rand_errors = 2, rand_ber = 1\<rparr>"

definition one_page :: vm_area where
  "one_page = \<lparr>vm_start = 0x10000, vm_end = 0x11000\<rparr>"

definition five_pages :: vm_area where
  "five_pages = \<lparr>vm_start = 0x10000, vm_end = 0x15000\<rparr>"

definition remap_works :: mmap_env where
  "remap_works = \<lparr>buffer_phys = 0x2000000, remap_ret = 0\<rparr>"

definition remap_fails :: mmap_env where
  "remap_fails = \<lparr>buffer_phys = 0x2000000, remap_ret = - 12\<rparr>"

text \<open>
  Three schedules: the reader prints the title, the rule, the name and the timestamp of
  site 0, then the whole callback runs, then the reader prints the rest; a short one in
  which a single assignment falls between the third and the fourth print; and one in
  which the whole report is printed after the first two assignments of the callback
  (the timestamp and the throughput of site 0).
\<close>

definition torn_schedule :: "thread list" where
  "torn_schedule = replicate 4 Reader @ replicate 24 Updater @ replicate 30 Reader"

definition short_schedule :: "thread list" where
  "short_schedule = [Reader, Reader, Reader, Updater, Reader]"

definition stale_schedule :: "thread list" where
  "stale_schedule = replicate 2 Updater @ replicate 34 Reader"

section \<open>Invariants\<close>

text \<open>
  \<open>util_ok\<close>: every record's utilization is the value computed from its own throughput.
  \<open>counters_le n\<close>: after \<open>n\<close> ticks no error counter exceeds \<open>2 * n\<close> and no BER counter
  exceeds \<open>n\<close>. \<open>race_inv\<close>: during an interleaved run the buffer is a prefix of the
  callback's assignments applied to the initial buffer, and every line printed so far is
  the corresponding line of the report of the buffer before or after the callback.
\<close>

definition util_ok :: "site_stats list \<Rightarrow> bool" where
  "util_ok s \<longleftrightarrow> length s = NUM_SITES \<and>
     (\<forall>i<NUM_SITES. utilization (s ! i) = calc_utilization (throughput_gbps (s ! i)))"

definition counters_le :: "nat \<Rightarrow> site_stats list \<Rightarrow> bool" where
  "counters_le n s \<longleftrightarrow> length s = NUM_SITES \<and>
     (\<forall>i<NUM_SITES. unat (error_count (s ! i)) \<le> 2 * n \<and> unat (ber_errors (s ! i)) \<le> n)"

definition race_inv :: "(nat \<Rightarrow> site_input) \<Rightarrow> site_stats list \<Rightarrow> race \<Rightarrow> bool" where
  "race_inv env s c \<longleftrightarrow>
     writes_done c \<le> 6 * NUM_SITES \<and> store c = writes env (writes_done c) s
     \<and> prints_done c = length (printed c) \<and> prints_done c \<le> 2 + 8 * NUM_SITES
     \<and> (\<forall>n<length (printed c).
           printed c ! n = proc_show_lines s ! n
           \<or> printed c ! n = proc_show_lines (update_sites env s) ! n)"

section \<open>Rounding\<close>

lemma round_even_err: "\<bar>of_int (round_even y) - y\<bar> \<le> 1/2"
  unfolding round_even_def Let_def
  by (auto simp: abs_if) linarith+

lemma round_even_ge: "of_int n - 1/2 < y \<Longrightarrow> n \<le> round_even y"
  using round_even_err[of y] by linarith

lemma quot_pos: "0 < x \<Longrightarrow> quotient_of x = (a, b) \<Longrightarrow> 0 < a \<and> 0 < b \<and> x = of_int a / of_int b"
  by (metis quotient_of_denom_pos quotient_of_div zero_less_Fract_iff Fract_of_int_quotient)

lemma bitlen_pos: "0 < a \<Longrightarrow> 1 \<le> bitlen a"
  by (simp add: bitlen_alt_def)

lemma pow_bitlen1: 
  assumes "0 < a" shows "(2::rat) powi (bitlen a - 1) \<le> of_int a"
proof -
  have "(2::int) ^ nat (bitlen a - 1) \<le> a" using bitlen_bounds[OF assms] by simp
  then have "(of_int (2 ^ nat (bitlen a - 1)) :: rat) \<le> of_int a" by (simp only: of_int_le_iff)
  moreover have "0 \<le> bitlen a - 1" using bitlen_pos[OF assms] by simp
  ultimately show ?thesis by (simp add: power_int_def)
qed

lemma pow_bitlen2: 
  assumes "0 < a" shows "of_int a < (2::rat) powi (bitlen a)"
proof -
  have "a < (2::int) ^ nat (bitlen a)" using bitlen_bounds[OF assms] by simp
  then have "(of_int a :: rat) < of_int (2 ^ nat (bitlen a))" by (simp only: of_int_less_iff)
  moreover have "0 \<le> bitlen a" using bitlen_pos[OF assms] by simp
  ultimately show ?thesis by (simp add: power_int_def)
qed

lemma expo_bounds:
  assumes "0 < x"
  shows "2 powi (expo x) \<le> x \<and> x < 2 powi (expo x + 1)"
proof -
  obtain a b where q: "quotient_of x = (a, b)" by (cases "quotient_of x")
  from quot_pos[OF assms q] have a: "0 < a" and b: "0 < b" and x: "x = of_int a / of_int b" by auto
  let ?k = "bitlen a - bitlen b"
  have e: "expo x = (if 2 powi ?k \<le> x then ?k else ?k - 1)"
    by (simp add: expo_def q Let_def)
  have pa1: "(2::rat) powi (bitlen a - 1) \<le> of_int a" by (rule pow_bitlen1[OF a])
  have pa2: "of_int a < (2::rat) powi (bitlen a)" by (rule pow_bitlen2[OF a])
  have pb1: "(2::rat) powi (bitlen b - 1) \<le> of_int b" by (rule pow_bitlen1[OF b])
  have pb2: "of_int b < (2::rat) powi (bitlen b)" by (rule pow_bitlen2[OF b])
  have bpos: "(0::rat) < of_int b" using b by simp
  have up: "x < 2 powi (?k + 1)"
  proof -
    have "of_int a < (2::rat) powi (bitlen a)" by (rule pa2)
    also have "\<dots> = 2 powi (?k + 1) * 2 powi (bitlen b - 1)"
      by (simp add: power_int_add[symmetric])
    also have "\<dots> \<le> 2 powi (?k + 1) * of_int b"
      by (rule mult_left_mono[OF pb1]) simp
    finally show ?thesis using bpos by (simp add: x pos_divide_less_eq)
  qed
  have lo: "2 powi (?k - 1) < x"
  proof -
    have "2 powi (?k - 1) * of_int b < 2 powi (?k - 1) * (2::rat) powi (bitlen b)"
      by (rule mult_strict_left_mono[OF pb2]) simp
    also have "\<dots> = 2 powi (bitlen a - 1)"
      by (simp add: power_int_add[symmetric])
    also have "\<dots> \<le> of_int a" by (rule pa1)
    finally show ?thesis using bpos by (simp add: x pos_less_divide_eq)
  qed
  show ?thesis
  proof (cases "2 powi ?k \<le> x")
    case True
    with e up show ?thesis by simp
  next
    case False
    with e lo show ?thesis by simp
  qed
qed

lemma expo_unique:
  assumes "0 < x" "2 powi e \<le> x" "x < 2 powi (e + 1)"
  shows "expo x = e"
proof -
  from expo_bounds[OF assms(1)] have b1: "2 powi (expo x) \<le> x" and b2: "x < 2 powi (expo x + 1)" by auto
  have lt1: "(2::rat) powi e < 2 powi (expo x + 1)" using assms(2) b2 by simp
  have "e < expo x + 1"
  proof (rule ccontr)
    assume "\<not> e < expo x + 1"
    then have "(2::rat) powi (expo x + 1) \<le> 2 powi e"
      by (intro power_int_increasing) simp_all
    with lt1 show False by simp
  qed
  moreover have lt2: "(2::rat) powi (expo x) < 2 powi (e + 1)" using assms(3) b1 by simp
  have "expo x < e + 1"
  proof (rule ccontr)
    assume "\<not> expo x < e + 1"
    then have "(2::rat) powi (e + 1) \<le> 2 powi (expo x)"
      by (intro power_int_increasing) simp_all
    with lt2 show False by simp
  qed
  ultimately show ?thesis by simp
qed

lemma fp_round_rel_err:
  "\<bar>fp_round p x - x\<bar> \<le> \<bar>x\<bar> * 2 powi (- int p)"
proof (cases "x = 0")
  case True then show ?thesis by (simp add: fp_round_def)
next
  case False
  let ?e = "expo \<bar>x\<bar>"
  let ?u = "(2::rat) powi (?e - int p + 1)"
  have upos: "0 < ?u" by simp
  have f: "fp_round p x = of_int (round_even (x / ?u)) * ?u"
    using False by (simp add: fp_round_def Let_def)
  have "\<bar>fp_round p x - x\<bar> = \<bar>of_int (round_even (x / ?u)) - x / ?u\<bar> * ?u"
  proof -
    have "fp_round p x - x = (of_int (round_even (x / ?u)) - x / ?u) * ?u"
      using upos by (simp add: f left_diff_distrib)
    then show ?thesis using upos by (simp add: abs_mult)
  qed
  also have "\<dots> \<le> 1/2 * ?u"
    by (rule mult_right_mono[OF round_even_err]) simp
  also have "\<dots> = 2 powi ?e * 2 powi (- int p)"
  proof -
    have "?u = 2 powi (?e + (- int p) + 1)" by simp
    also have "\<dots> = 2 powi (?e + (- int p)) * 2"
      by (rule power_int_add_1) simp
    also have "2 powi (?e + (- int p)) = (2::rat) powi ?e * 2 powi (- int p)"
      by (rule power_int_add) simp
    finally show ?thesis by simp
  qed
  also have "\<dots> \<le> \<bar>x\<bar> * 2 powi (- int p)"
  proof (rule mult_right_mono)
    show "2 powi ?e \<le> \<bar>x\<bar>" using expo_bounds[of "\<bar>x\<bar>"] False by simp
  qed simp
  finally show ?thesis .
qed

lemma fp_round_interval:
  assumes "0 \<le> lo" "lo \<le> x" "x \<le> hi"
  shows "lo * (1 - 2 powi (- int p)) \<le> fp_round p x \<and> fp_round p x \<le> hi * (1 + 2 powi (- int p))"
proof -
  let ?e = "(2::rat) powi (- int p)"
  have x0: "0 \<le> x" using assms by simp
  have e0: "0 \<le> ?e" by simp
  have e1: "?e \<le> 1" by (simp add: power_int_minus inverse_le_1_iff one_le_power)
  have err: "\<bar>fp_round p x - x\<bar> \<le> x * ?e" using fp_round_rel_err[of p x] x0 by simp
  have "lo * (1 - ?e) \<le> x * (1 - ?e)" by (rule mult_right_mono[OF assms(2)]) (use e1 in simp)
  moreover have "x * (1 - ?e) \<le> fp_round p x" using err by (simp add: algebra_simps abs_le_iff)
  moreover have "fp_round p x \<le> x * (1 + ?e)" using err by (simp add: algebra_simps abs_le_iff)
  moreover have "x * (1 + ?e) \<le> hi * (1 + ?e)" by (rule mult_right_mono[OF assms(3)]) (use e0 in simp)
  ultimately show ?thesis by linarith
qed

lemma pw53: "(2::rat) powi (- int 53) = 1 / 9007199254740992"
  by (simp add: power_int_minus inverse_eq_divide)

lemma pw24: "(2::rat) powi (- int 24) = 1 / 16777216"
  by (simp add: power_int_minus inverse_eq_divide)

section \<open>The utilization expression\<close>

lemma double_part_interval:
  assumes "0 \<le> lo" "lo \<le> of_int (uint t) / 20" "of_int (uint t) / 20 \<le> hi"
  shows "lo * (1 - 1 / 4503599627370495) \<le> double_mul (double_div (of_int (uint t)) 2000) 100
       \<and> double_mul (double_div (of_int (uint t)) 2000) 100 \<le> hi * (1 + 1 / 4503599627370495)"
proof -
  let ?x = "(of_int (uint t) :: rat)"
  let ?d1 = "fp_round 53 (?x / 2000)"
  let ?d2 = "fp_round 53 (?d1 * 100)"
  let ?c = "1 - 1 / (9007199254740992::rat)"
  let ?C = "1 + 1 / (9007199254740992::rat)"
  have hi0: "0 \<le> hi" using assms by simp
  have i1: "lo / 100 * ?c \<le> ?d1 \<and> ?d1 \<le> hi / 100 * ?C"
    using fp_round_interval[of "lo / 100" "?x / 2000" "hi / 100" 53] assms by (simp add: pw53)
  have lo1: "0 \<le> lo / 100 * ?c * 100" using assms(1) by simp
  have i2: "lo / 100 * ?c * 100 * ?c \<le> ?d2 \<and> ?d2 \<le> hi / 100 * ?C * 100 * ?C"
    using fp_round_interval[OF lo1, of "?d1 * 100" "hi / 100 * ?C * 100" 53] i1 by (simp add: pw53)
  have "lo * (1 - 1 / 4503599627370495) \<le> lo * (?c * ?c)"
    by (rule mult_left_mono[OF _ assms(1)]) simp
  moreover have "hi * (?C * ?C) \<le> hi * (1 + 1 / 4503599627370495)"
    by (rule mult_left_mono[OF _ hi0]) simp
  ultimately show ?thesis using i2 by (simp add: double_mul_def double_div_def algebra_simps)
qed

lemma calc_utilization_interval:
  assumes "0 \<le> lo" "lo \<le> of_int (uint t) / 20" "of_int (uint t) / 20 \<le> hi"
  shows "lo * (1 - 1 / 8388608) \<le> calc_utilization t \<and> calc_utilization t \<le> hi * (1 + 1 / 8388608)"
proof -
  let ?x = "(of_int (uint t) :: rat)"
  let ?d1 = "fp_round 53 (?x / 2000)"
  let ?d2 = "fp_round 53 (?d1 * 100)"
  let ?c = "1 - 1 / (9007199254740992::rat)"
  let ?C = "1 + 1 / (9007199254740992::rat)"
  have hi0: "0 \<le> hi" using assms by simp
  have i1: "lo / 100 * ?c \<le> ?d1 \<and> ?d1 \<le> hi / 100 * ?C"
    using fp_round_interval[of "lo / 100" "?x / 2000" "hi / 100" 53] assms by (simp add: pw53)
  have lo1: "0 \<le> lo / 100 * ?c * 100" using assms(1) by simp
  have i2: "lo / 100 * ?c * 100 * ?c \<le> ?d2 \<and> ?d2 \<le> hi / 100 * ?C * 100 * ?C"
    using fp_round_interval[OF lo1, of "?d1 * 100" "hi / 100 * ?C * 100" 53] i1 by (simp add: pw53)
  have lo2: "0 \<le> lo / 100 * ?c * 100 * ?c" using assms(1) by simp
  have i3: "lo / 100 * ?c * 100 * ?c * (1 - 1 / 16777216) \<le> fp_round 24 ?d2
      \<and> fp_round 24 ?d2 \<le> hi / 100 * ?C * 100 * ?C * (1 + 1 / 16777216)"
    using fp_round_interval[OF lo2, of ?d2 "hi / 100 * ?C * 100 * ?C" 24] i2 by (simp add: pw24)
  have c: "calc_utilization t = fp_round 24 ?d2"
    by (simp add: calc_utilization_def double_to_float_def double_mul_def double_div_def)
  have "lo * (1 - 1 / 8388608) \<le> lo * (?c * ?c * (1 - 1 / 16777216))"
    by (rule mult_left_mono[OF _ assms(1)]) simp
  moreover have "hi * (?C * ?C * (1 + 1 / 16777216)) \<le> hi * (1 + 1 / 8388608)"
    by (rule mult_left_mono[OF _ hi0]) simp
  ultimately show ?thesis using i3 unfolding c by (simp add: algebra_simps)
qed

lemma calc_utilization_tolerance:
  "\<bar>calc_utilization t - of_int (uint t) / 2000 * 100\<bar> \<le> of_int (uint t) / 2000 * 100 / 8388608"
proof -
  let ?x = "(of_int (uint t) :: rat) / 20"
  have "0 \<le> uint t" by simp
  then have "(0::rat) \<le> of_int (uint t)" by (simp only: of_int_0_le_iff)
  then have "0 \<le> ?x" by simp
  from calc_utilization_interval[OF this, of t ?x]
  have a: "?x * (1 - 1 / 8388608) \<le> calc_utilization t"
    and b: "calc_utilization t \<le> ?x * (1 + 1 / 8388608)" by simp_all
  have e: "of_int (uint t) / 2000 * 100 = ?x" by simp
  have "calc_utilization t - ?x \<le> ?x / 8388608" using b by (simp add: algebra_simps)
  moreover have "?x - calc_utilization t \<le> ?x / 8388608" using a by (simp add: algebra_simps)
  ultimately show ?thesis unfolding e by linarith
qed

lemma double_to_float_ge_40:
  assumes lo: "40 - 1 / 1000000 \<le> d" and hi: "d < 100"
  shows "40 \<le> double_to_float d"
proof (cases "d < 64")
  case True
  have dpos: "0 < d" using lo by simp
  have "expo d = 5"
  proof (rule expo_unique[OF dpos])
    show "2 powi 5 \<le> d" using lo by simp
    show "d < 2 powi (5 + 1)" using True by simp
  qed
  then have f: "double_to_float d = of_int (round_even (d * 262144)) / 262144"
    using dpos by (simp add: double_to_float_def fp_round_def power_int_minus)
  have "of_int 10485760 - 1 / 2 < d * 262144" using lo by simp
  then have "10485760 \<le> round_even (d * 262144)" by (rule round_even_ge)
  then have "(of_int 10485760 :: rat) \<le> of_int (round_even (d * 262144))" by (simp only: of_int_le_iff)
  then show ?thesis unfolding f by simp
next
  case False
  then have "64 \<le> d" by simp
  from fp_round_interval[of 64 d d 24] this
  have "64 * (1 - 1 / 16777216) \<le> fp_round 24 d" by (simp add: pw24)
  then show ?thesis by (simp add: double_to_float_def)
qed

lemma uint_throughput: "uint (800 + rv mod 1200 :: u32) = 800 + uint rv mod 1200"
proof -
  have "uint (rv mod 1200) = uint rv mod 1200" by (simp add: uint_mod)
  moreover have "uint rv mod 1200 < 1200" by simp
  moreover have "0 \<le> uint rv mod 1200" by simp
  ultimately show ?thesis by (simp add: uint_word_ariths)
qed

lemma throughput_range:
  "800 \<le> uint (800 + rv mod 1200 :: u32) \<and> uint (800 + rv mod 1200 :: u32) < 2000"
  by (simp add: uint_throughput)

lemma calc_utilization_range:
  assumes "800 \<le> uint t" "uint t < 2000"
  shows "40 \<le> calc_utilization t \<and> calc_utilization t < 100"
proof -
  let ?x = "(of_int (uint t) :: rat)"
  have l: "(40::rat) \<le> ?x / 20" 
  proof -
    have "(of_int 800 :: rat) \<le> ?x" using assms(1) by (simp only: of_int_le_iff)
    then show ?thesis by simp
  qed
  have h: "?x / 20 \<le> 1999 / 20" 
  proof -
    have "uint t \<le> 1999" using assms(2) by simp
    then have "?x \<le> of_int 1999" by (simp only: of_int_le_iff)
    then show ?thesis by simp
  qed
  from double_part_interval[of 40 t "1999 / 20"] l h
  have d: "40 * (1 - 1 / 4503599627370495) \<le> double_mul (double_div ?x 2000) 100"
     "double_mul (double_div ?x 2000) 100 \<le> 1999 / 20 * (1 + 1 / 4503599627370495)"
    by simp_all
  have "40 \<le> double_to_float (double_mul (double_div ?x 2000) 100)"
    by (rule double_to_float_ge_40) (use d in simp_all)
  moreover from calc_utilization_interval[of 40 t "1999 / 20"] l h
  have "calc_utilization t \<le> 1999 / 20 * (1 + 1 / 8388608)" by simp
  then have "calc_utilization t < 100" by simp
  ultimately show ?thesis by (simp add: calc_utilization_def)
qed

lemma calc_utilization_1000: "calc_utilization 1000 = 50"
  by code_simp

lemma calc_utilization_800: "calc_utilization 800 = 40"
  by code_simp

section \<open>The loops over the sites\<close>

lemmas update_site_defs = update_site_def set_timestamp_def set_throughput_def add_errors_def
  add_ber_def set_utilization_def set_link_up_def

lemma fold_update_length:
  "length (fold (\<lambda>i s. s[i := f i (s ! i)]) js s) = length s"
  by (induction js arbitrary: s) simp_all

lemma fold_update_nth:
  "n \<le> length s \<Longrightarrow> j < length s \<Longrightarrow>
     fold (\<lambda>i s. s[i := f i (s ! i)]) [0..<n] s ! j = (if j < n then f j (s ! j) else s ! j)"
proof (induction n arbitrary: j)
  case 0
  then show ?case by simp
next
  case (Suc n)
  let ?s = "fold (\<lambda>i s. s[i := f i (s ! i)]) [0..<n] s"
  have len: "length ?s = length s" by (rule fold_update_length)
  have n: "n < length s" using Suc.prems by simp
  have ihj: "?s ! j = (if j < n then f j (s ! j) else s ! j)" using Suc by simp
  have ihn: "?s ! n = s ! n" using Suc.IH[of n] n by simp
  show ?case using ihj ihn n Suc.prems(2) by (simp add: len nth_list_update)
qed

lemma update_sites_length: "length (update_sites env s) = length s"
  unfolding update_sites_def by (rule fold_update_length [where f = "\<lambda>i. update_site (env i)"])

lemma update_sites_nth:
  "length s = NUM_SITES \<Longrightarrow> i < NUM_SITES \<Longrightarrow>
     update_sites env s ! i = update_site (env i) (s ! i)"
  unfolding update_sites_def
  using fold_update_nth [where f = "\<lambda>i. update_site (env i)" and n = NUM_SITES and s = s and j = i]
  by simp

lemma init_sites_length: "length (init_sites clock) = NUM_SITES"
  unfolding init_sites_def
  using fold_update_length [where f = "\<lambda>i. init_site i (clock i)"
      and js = "[0..<NUM_SITES]" and s = "replicate NUM_SITES zero_site"]
  by simp

lemma init_sites_nth:
  "i < NUM_SITES \<Longrightarrow> init_sites clock ! i = init_site i (clock i) zero_site"
  unfolding init_sites_def
  using fold_update_nth [where f = "\<lambda>i. init_site i (clock i)" and n = NUM_SITES
      and s = "replicate NUM_SITES zero_site" and j = i]
  by simp

lemma upt_NUM_SITES: "[0..<NUM_SITES] = [0, 1, 2, 3]"
  by (simp add: NUM_SITES_def upt_rec)

lemma sites_data_run_ticks:
  "sites_data (run_ticks envs k) = fold update_sites envs (sites_data k)"
  by (induction envs arbitrary: k) (simp_all add: run_ticks_def update_stats_timer_def)

lemma fold_update_sites_length: "length (fold update_sites envs s) = length s"
  by (induction envs arbitrary: s) (simp_all add: update_sites_length)

lemma skma_fon_init_ok:
  "fst (skma_fon_init e unloaded) = Inr () \<Longrightarrow>
     sites_data (snd (skma_fon_init e unloaded)) = init_sites (init_clock e)"
  by (simp add: skma_fon_init_def Let_def kfree_buffer_def remove_proc_entry_def split: if_splits)

lemma run_ticks_snoc:
  "run_ticks (envs @ [env]) k = update_stats_timer env (run_ticks envs k)"
  by (simp add: run_ticks_def)

lemma boot_ok: "fst (skma_fon_init boot_env unloaded) = Inr ()"
  by (simp add: skma_fon_init_def boot_env_def Let_def)

lemma loaded_sites: "sites_data loaded = init_sites boot_clock"
  using skma_fon_init_ok [OF boot_ok] by (simp add: loaded_def boot_env_def)

lemma loaded_length: "length (sites_data loaded) = NUM_SITES"
  by (simp add: loaded_sites init_sites_length)

lemma loaded_site0: "sites_data loaded ! 0 = init_site 0 1700000000 zero_site"
  by (simp add: loaded_sites init_sites_nth NUM_SITES_def boot_clock_def)

lemma unat_mod3: "unat (rv mod 3 :: u32) < 3"
  by (simp add: unat_mod)

lemma unat_mod2: "unat (rv mod 2 :: u32) < 2"
  by (simp add: unat_mod)

lemma unat_add_le: "unat (a + b :: u32) \<le> unat a + unat b"
  by (simp add: unat_word_ariths)

lemma word_le_add_small:
  "unat (a :: u32) + unat b < 2 ^ 32 \<Longrightarrow> a \<le> a + b"
  by (simp add: word_le_nat_alt unat_word_ariths)

lemma error_count_update_site: "error_count (update_site e r) = error_count r + rand_errors e mod 3"
  by (simp add: update_site_defs)

lemma ber_errors_update_site: "ber_errors (update_site e r) = ber_errors r + rand_ber e mod 2"
  by (simp add: update_site_defs)

lemma site_name_update_site: "site_name (update_site e r) = site_name r"
  by (simp add: update_site_defs)

lemma util_update_site: "utilization (update_site e r) = calc_utilization (throughput_gbps (update_site e r))"
  by (simp add: update_site_defs)

lemma utilization_update_site:
  "40 \<le> utilization (update_site e r) \<and> utilization (update_site e r) < 100"
proof -
  have "utilization (update_site e r) = calc_utilization (800 + rand_throughput e mod 1200)"
    by (simp add: update_site_defs)
  then show ?thesis
    using calc_utilization_range [of "800 + rand_throughput e mod 1200"]
      throughput_range [of "rand_throughput e"] by simp
qed

section \<open>Reports printed while the callback runs\<close>

lemma update_site_steps: "update_site e r = site_prefix e 6 r"
  by (simp add: site_prefix_def site_steps_def update_site_def)

lemma site_steps_length: "length (site_steps e) = 6"
  by (simp add: site_steps_def)

lemma site_prefix_Suc:
  "n < 6 \<Longrightarrow> site_prefix e (Suc n) r = (site_steps e ! n) (site_prefix e n r)"
  by (simp add: site_prefix_def take_Suc_conv_app_nth site_steps_length)

lemma site_prefix_0: "site_prefix e 0 r = r"
  by (simp add: site_prefix_def)

lemma writes_Suc: "writes env (Suc w) s = write_step env w (writes env w s)"
  by (simp add: writes_def)

lemma write_step_length: "length (write_step env m s) = length s"
  by (simp add: write_step_def Let_def)

lemma writes_length: "length (writes env w s) = length s"
  by (induction w) (simp_all add: writes_Suc write_step_length, simp add: writes_def)

lemma writes_nth:
  "length s = NUM_SITES \<Longrightarrow> w \<le> 6 * NUM_SITES \<Longrightarrow> i < NUM_SITES \<Longrightarrow>
     writes env w s ! i = site_prefix (env i) (min 6 (w - 6 * i)) (s ! i)"
proof (induction w)
  case 0
  then show ?case by (simp add: writes_def site_prefix_0)
next
  case (Suc w)
  let ?j = "w div 6"
  have ih: "writes env w s ! i = site_prefix (env i) (min 6 (w - 6 * i)) (s ! i)"
    using Suc by simp
  have len: "length (writes env w s) = NUM_SITES" using Suc.prems by (simp add: writes_length)
  have j: "?j < NUM_SITES" using Suc.prems(2) by (simp add: NUM_SITES_def)
  show ?case
  proof (cases "i = ?j")
    case True
    have d: "w - 6 * i = w mod 6" unfolding True by presburger
    have d': "Suc w - 6 * i = Suc (w mod 6)" unfolding True by presburger
    have lt: "w mod 6 < 6" by simp
    have ih': "writes env w s ! i = site_prefix (env i) (w mod 6) (s ! i)"
      using ih lt unfolding d by simp
    have "writes env (Suc w) s ! i = (site_steps (env i) ! (w mod 6)) (writes env w s ! i)"
      unfolding writes_Suc using len j True by (simp add: write_step_def Let_def)
    also have "\<dots> = site_prefix (env i) (Suc (w mod 6)) (s ! i)"
      unfolding ih' by (rule site_prefix_Suc [OF lt, symmetric])
    also have "Suc (w mod 6) = min 6 (Suc w - 6 * i)" unfolding d' using lt by simp
    finally show ?thesis .
  next
    case False
    have "min 6 (Suc w - 6 * i) = min 6 (w - 6 * i)"
    proof (cases "i < ?j")
      case True
      then have "6 * i + 6 \<le> w" by presburger
      then show ?thesis by simp
    next
      case F: False
      with False have "?j < i" by simp
      then have "w < 6 * i" by presburger
      then show ?thesis by simp
    qed
    moreover have "writes env (Suc w) s ! i = writes env w s ! i"
      unfolding writes_Suc using False len j Suc.prems(3) by (simp add: write_step_def Let_def)
    ultimately show ?thesis using ih by simp
  qed
qed

lemma writes_all:
  assumes "length s = NUM_SITES"
  shows "writes env (6 * NUM_SITES) s = update_sites env s"
proof (rule nth_equalityI)
  show "length (writes env (6 * NUM_SITES) s) = length (update_sites env s)"
    by (simp add: writes_length update_sites_length)
next
  fix i assume "i < length (writes env (6 * NUM_SITES) s)"
  then have i: "i < NUM_SITES" using assms by (simp add: writes_length)
  have "min 6 (6 * NUM_SITES - 6 * i) = 6" using i by simp
  then show "writes env (6 * NUM_SITES) s ! i = update_sites env s ! i"
    using writes_nth [OF assms _ i, of "6 * NUM_SITES" env]
    by (simp add: update_sites_nth [OF assms i] update_site_steps)
qed

lemma line_of_prefix:
  assumes "k \<le> 6" "f < 8"
  shows "show_site (site_prefix e k r) ! f = show_site r ! f
       \<or> show_site (site_prefix e k r) ! f = show_site (update_site e r) ! f"
proof -
  have k: "k = 0 \<or> k = 1 \<or> k = 2 \<or> k = 3 \<or> k = 4 \<or> k = 5 \<or> k = 6" using assms(1) by arith
  have f: "f = 0 \<or> f = 1 \<or> f = 2 \<or> f = 3 \<or> f = 4 \<or> f = 5 \<or> f = 6 \<or> f = 7" using assms(2) by arith
  show ?thesis using k f
    by (auto simp: site_prefix_def site_steps_def show_site_def update_site_defs)
qed

lemma concat_map_nth:
  "(\<And>x. x \<in> set xs \<Longrightarrow> length (g x) = m) \<Longrightarrow> n < m * length xs \<Longrightarrow>
     concat (map g xs) ! n = g (xs ! (n div m)) ! (n mod m)"
proof (induction xs arbitrary: n)
  case Nil
  then show ?case by simp
next
  case (Cons x xs)
  have lx: "length (g x) = m" using Cons.prems(1) by simp
  have mpos: "0 < m" using Cons.prems(2) by (cases m) simp_all
  show ?case
  proof (cases "n < m")
    case True
    then show ?thesis by (simp add: nth_append lx)
  next
    case False
    then have nm: "m \<le> n" by simp
    have "n - m < m * length xs" using Cons.prems(2) nm by (simp add: algebra_simps)
    from Cons.IH [OF _ this] Cons.prems(1)
    have "concat (map g xs) ! (n - m) = g (xs ! ((n - m) div m)) ! ((n - m) mod m)" by simp
    moreover have "n div m = Suc ((n - m) div m)" using nm mpos by (simp add: le_div_geq)
    moreover have "(n - m) mod m = n mod m" using nm by (simp add: le_mod_geq)
    ultimately show ?thesis using False by (simp add: nth_append lx)
  qed
qed

lemma show_site_length: "length (show_site r) = 8"
  by (simp add: show_site_def)

lemma proc_show_lines_length: "length (proc_show_lines s) = 2 + 8 * NUM_SITES"
  by (simp add: proc_show_lines_def length_concat comp_def show_site_length sum_list_triv)

lemma proc_show_lines_nth:
  assumes "n < 8 * NUM_SITES"
  shows "proc_show_lines s ! (2 + n) = show_site (s ! (n div 8)) ! (n mod 8)"
proof -
  have "concat (map (\<lambda>i. show_site (s ! i)) [0..<NUM_SITES]) ! n
      = show_site (s ! ([0..<NUM_SITES] ! (n div 8))) ! (n mod 8)"
    by (rule concat_map_nth) (use assms in \<open>simp_all add: show_site_length\<close>)
  moreover have "n div 8 < NUM_SITES" using assms by simp
  ultimately show ?thesis by (simp add: proc_show_lines_def)
qed

lemma proc_show_lines_head:
  "proc_show_lines s ! 0 = Line_title" "proc_show_lines s ! Suc 0 = Line_rule"
  by (simp_all add: proc_show_lines_def)

lemma proc_show_lines_explicit:
  "proc_show_lines s = Line_title # Line_rule # show_site (s ! 0) @ show_site (s ! 1)
     @ show_site (s ! 2) @ show_site (s ! 3)"
  by (simp add: proc_show_lines_def upt_NUM_SITES)

lemma line_pre_post:
  assumes len: "length s = NUM_SITES" and w: "w \<le> 6 * NUM_SITES" and n: "n < 2 + 8 * NUM_SITES"
  shows "proc_show_lines (writes env w s) ! n = proc_show_lines s ! n
       \<or> proc_show_lines (writes env w s) ! n = proc_show_lines (update_sites env s) ! n"
proof (cases "n < 2")
  case True
  then have "n = 0 \<or> n = Suc 0" by arith
  then show ?thesis by (auto simp: proc_show_lines_head)
next
  case False
  then obtain m where m: "n = 2 + m" and m8: "m < 8 * NUM_SITES"
    using n by (metis add_diff_inverse_nat nat_add_left_cancel_less)
  have i: "m div 8 < NUM_SITES" using m8 by simp
  have f: "m mod 8 < 8" by simp
  have k: "min 6 (w - 6 * (m div 8)) \<le> 6" by simp
  show ?thesis
    unfolding m proc_show_lines_nth [OF m8]
      writes_nth [OF len w i] update_sites_nth [OF len i]
    by (rule line_of_prefix [OF k f])
qed

lemma race_inv_start: "race_inv env s (race_start s)"
  by (simp add: race_inv_def race_start_def writes_def)

lemma race_inv_step:
  assumes len: "length s = NUM_SITES" and inv: "race_inv env s c"
  shows "race_inv env s (race_step env t c)"
proof (cases t)
  case Reader
  show ?thesis
  proof (cases "prints_done c < 2 + 8 * NUM_SITES")
    case True
    have w: "writes_done c \<le> 6 * NUM_SITES" and st: "store c = writes env (writes_done c) s"
      and p: "prints_done c = length (printed c)"
      and old: "\<And>n. n < length (printed c) \<Longrightarrow>
           printed c ! n = proc_show_lines s ! n
           \<or> printed c ! n = proc_show_lines (update_sites env s) ! n"
      using inv by (simp_all add: race_inv_def)
    have new: "proc_show_lines (store c) ! prints_done c = proc_show_lines s ! prints_done c
        \<or> proc_show_lines (store c) ! prints_done c
            = proc_show_lines (update_sites env s) ! prints_done c"
      unfolding st by (rule line_pre_post [OF len w True])
    { fix n assume "n < Suc (length (printed c))"
      then have "n < length (printed c) \<or> n = length (printed c)" by arith
      then have "(printed c @ [proc_show_lines (store c) ! prints_done c]) ! n = proc_show_lines s ! n
          \<or> (printed c @ [proc_show_lines (store c) ! prints_done c]) ! n
              = proc_show_lines (update_sites env s) ! n"
        using old [of n] new p by (auto simp: nth_append)
    }
    then show ?thesis using True Reader w st p by (simp add: race_inv_def)
  next
    case False
    then show ?thesis using Reader inv by simp
  qed
next
  case Updater
  show ?thesis
  proof (cases "writes_done c < 6 * NUM_SITES")
    case True
    then show ?thesis using Updater inv by (simp add: race_inv_def writes_Suc)
  next
    case False
    then show ?thesis using Updater inv by simp
  qed
qed

lemma race_inv_run:
  "length s = NUM_SITES \<Longrightarrow> race_inv env s c \<Longrightarrow> race_inv env s (race_run env sched c)"
  unfolding race_run_def
  by (induction sched arbitrary: c) (simp_all add: race_inv_step)

text \<open>
  Claim C1, as the code has it. In every interleaving of one \<^verbatim>\<open>proc_show\<close> with one
  timer callback on a buffer of \<^verbatim>\<open>NUM_SITES\<close> records, each line the reader has printed
  is the line at the same position of the report of the buffer before the callback or
  of the report of the buffer after it: every field is printed with its value from
  before or from after the tick. Nothing ties the lines of one record to the same side.
\<close>

theorem proc_show_lines_pre_or_post:
  "length s = NUM_SITES \<Longrightarrow> n < length (printed (race_run env sched (race_start s))) \<Longrightarrow>
     printed (race_run env sched (race_start s)) ! n = proc_show_lines s ! n
     \<or> printed (race_run env sched (race_start s)) ! n = proc_show_lines (update_sites env s) ! n"
  using race_inv_run [OF _ race_inv_start, of s env sched] by (simp add: race_inv_def)

theorem proc_show_lines_pre_or_post_witness:
  "length (sites_data loaded) = NUM_SITES
   \<and> 3 < length (printed (race_run tick_env short_schedule (race_start (sites_data loaded))))
   \<and> (printed (race_run tick_env short_schedule (race_start (sites_data loaded))) ! 3
        = proc_show_lines (sites_data loaded) ! 3
      \<or> printed (race_run tick_env short_schedule (race_start (sites_data loaded))) ! 3
        = proc_show_lines (update_sites tick_env (sites_data loaded)) ! 3)"
proof -
  have l: "length (sites_data loaded) = NUM_SITES"
    by (simp add: loaded_sites init_sites_length)
  have n: "3 < length (printed (race_run tick_env short_schedule (race_start (sites_data loaded))))"
    by (simp add: short_schedule_def race_run_def race_start_def NUM_SITES_def)
  show ?thesis using l n proc_show_lines_pre_or_post [OF l n] by blast
qed

lemma race_run_snoc:
  "race_run env (replicate (Suc n) t) c = race_step env t (race_run env (replicate n t) c)"
proof -
  have "replicate (Suc n) t = replicate n t @ [t]" by (simp add: replicate_append_same)
  then show ?thesis by (simp only: race_run_def fold_append comp_def fold_simps)
qed

lemma race_run_readers:
  "prints_done c = length (printed c) \<Longrightarrow> length (printed c) + n \<le> 2 + 8 * NUM_SITES \<Longrightarrow>
     race_run env (replicate n Reader) c
       = c\<lparr>prints_done := prints_done c + n,
            printed := printed c @ take n (drop (length (printed c)) (proc_show_lines (store c)))\<rparr>"
proof (induction n)
  case 0
  then show ?case by (simp add: race_run_def)
next
  case (Suc n)
  have ih: "race_run env (replicate n Reader) c
       = c\<lparr>prints_done := prints_done c + n,
            printed := printed c @ take n (drop (length (printed c)) (proc_show_lines (store c)))\<rparr>"
    using Suc by simp
  have ll: "length (printed c) + n < length (proc_show_lines (store c))"
    using Suc.prems by (simp add: proc_show_lines_length)
  then have t: "take (Suc n) (drop (length (printed c)) (proc_show_lines (store c)))
      = take n (drop (length (printed c)) (proc_show_lines (store c)))
        @ [proc_show_lines (store c) ! (length (printed c) + n)]"
    by (simp add: take_Suc_conv_app_nth)
  have lt: "prints_done c + n < 2 + 8 * NUM_SITES" using Suc.prems by simp
  show ?case unfolding race_run_snoc ih t using lt Suc.prems(1) by simp
qed

lemma race_run_updaters:
  "writes_done c + n \<le> 6 * NUM_SITES \<Longrightarrow>
     race_run env (replicate n Updater) c
       = c\<lparr>writes_done := writes_done c + n,
            store := fold (write_step env) [writes_done c..<writes_done c + n] (store c)\<rparr>"
proof (induction n)
  case 0
  then show ?case by (simp add: race_run_def)
next
  case (Suc n)
  have ih: "race_run env (replicate n Updater) c
       = c\<lparr>writes_done := writes_done c + n,
            store := fold (write_step env) [writes_done c..<writes_done c + n] (store c)\<rparr>"
    using Suc by simp
  have lt: "writes_done c + n < 6 * NUM_SITES" using Suc.prems by simp
  show ?case unfolding race_run_snoc ih using lt by simp
qed

lemma race_run_append:
  "race_run env (xs @ ys) c = race_run env ys (race_run env xs c)"
  by (simp add: race_run_def)

lemma ticked_site0:
  "update_sites tick_env (sites_data loaded) ! 0
     = update_site (tick_env 0) (init_site 0 1700000000 zero_site)"
  by (simp add: update_sites_nth [OF loaded_length] NUM_SITES_def loaded_site0)

lemma show_loaded_site0:
  "show_site (init_site 0 1700000000 zero_site)
     = [Line_site ''MicrosoftDC'', Line_timestamp 1700000000, Line_throughput 1000,
        Line_errors 0, Line_ber 0, Line_utilization 50, Line_link ''UP'', Line_blank]"
  by (simp add: show_site_def init_site_def zero_site_def site_names_def)

lemma show_ticked_site0:
  "show_site (update_site (tick_env 0) (init_site 0 1700000000 zero_site))
     = [Line_site ''MicrosoftDC'', Line_timestamp 1700000001, Line_throughput 800,
        Line_errors 2, Line_ber 1, Line_utilization 40, Line_link ''UP'', Line_blank]"
  by (simp add: show_site_def init_site_def zero_site_def site_names_def update_site_defs
      tick_env_def calc_utilization_800)

lemma torn_run:
  "printed (race_run tick_env torn_schedule (race_start (sites_data loaded)))
     = take 4 (proc_show_lines (sites_data loaded))
       @ take 30 (drop 4 (proc_show_lines (update_sites tick_env (sites_data loaded))))"
proof -
  let ?c0 = "race_start (sites_data loaded)"
  have a: "race_run tick_env (replicate 4 Reader) ?c0
      = ?c0\<lparr>prints_done := 4, printed := take 4 (proc_show_lines (sites_data loaded))\<rparr>"
    using race_run_readers [of ?c0 4 tick_env] by (simp add: race_start_def NUM_SITES_def)
  let ?c1 = "?c0\<lparr>prints_done := 4, printed := take 4 (proc_show_lines (sites_data loaded))\<rparr>"
  have w: "fold (write_step tick_env) [0..<24] (sites_data loaded)
      = update_sites tick_env (sites_data loaded)"
    using writes_all [OF loaded_length, of tick_env] by (simp add: writes_def NUM_SITES_def)
  have b: "race_run tick_env (replicate 24 Updater) ?c1
      = ?c1\<lparr>writes_done := 24, store := update_sites tick_env (sites_data loaded)\<rparr>"
    using race_run_updaters [of ?c1 24 tick_env] w by (simp add: race_start_def NUM_SITES_def)
  let ?c2 = "?c1\<lparr>writes_done := 24, store := update_sites tick_env (sites_data loaded)\<rparr>"
  have l4: "length (take 4 (proc_show_lines (sites_data loaded))) = 4"
    by (simp add: proc_show_lines_length NUM_SITES_def)
  have c: "printed (race_run tick_env (replicate 30 Reader) ?c2)
      = take 4 (proc_show_lines (sites_data loaded))
        @ take 30 (drop 4 (proc_show_lines (update_sites tick_env (sites_data loaded))))"
    using race_run_readers [of ?c2 30 tick_env] l4 by (simp add: race_start_def NUM_SITES_def)
  show ?thesis unfolding torn_schedule_def race_run_append a b c ..
qed

lemma torn_block:
  "take 8 (drop 2 (printed (race_run tick_env torn_schedule (race_start (sites_data loaded)))))
     = [Line_site ''MicrosoftDC'', Line_timestamp 1700000000, Line_throughput 800,
        Line_errors 2, Line_ber 1, Line_utilization 40, Line_link ''UP'', Line_blank]"
  unfolding torn_run proc_show_lines_explicit loaded_site0 ticked_site0
    show_loaded_site0 show_ticked_site0
  by (simp add: show_site_def)

lemma history_timestamp_first:
  assumes "w \<le> 6 * NUM_SITES"
  shows "show_site (writes tick_env w (sites_data loaded) ! 0)
      \<noteq> [Line_site ''MicrosoftDC'', Line_timestamp 1700000000, Line_throughput 800,
         Line_errors 2, Line_ber 1, Line_utilization 40, Line_link ''UP'', Line_blank]"
proof -
  have i: "0 < NUM_SITES" by (simp add: NUM_SITES_def)
  let ?k = "min 6 (w - 6 * 0)"
  have s: "writes tick_env w (sites_data loaded) ! 0
      = site_prefix (tick_env 0) ?k (init_site 0 1700000000 zero_site)"
    using writes_nth [OF loaded_length assms i, of tick_env] by (simp add: loaded_site0)
  have "?k \<le> 6" by simp
  then have k: "?k = 0 \<or> ?k = 1 \<or> ?k = 2 \<or> ?k = 3 \<or> ?k = 4 \<or> ?k = 5 \<or> ?k = 6" by arith
  show ?thesis unfolding s using k
    by (elim disjE) (simp_all add: site_prefix_def site_steps_def show_site_def init_site_def
        update_site_defs tick_env_def)
qed

text \<open>
  Claim C1 as stated fails. Under \<open>torn_schedule\<close> the record printed for site 0 has the
  timestamp from before the tick and the throughput, counters and utilization from after
  it. It is neither the record before the tick nor the record after it, and site 0 was
  in no such state at any moment of the callback, which writes the timestamp first.
\<close>

theorem proc_show_torn_record:
  "take 8 (drop 2 (printed (race_run tick_env torn_schedule (race_start (sites_data loaded)))))
     = [Line_site ''MicrosoftDC'', Line_timestamp 1700000000, Line_throughput 800,
        Line_errors 2, Line_ber 1, Line_utilization 40, Line_link ''UP'', Line_blank]
   \<and> show_site (sites_data loaded ! 0)
     = [Line_site ''MicrosoftDC'', Line_timestamp 1700000000, Line_throughput 1000,
        Line_errors 0, Line_ber 0, Line_utilization 50, Line_link ''UP'', Line_blank]
   \<and> show_site (sites_data (update_stats_timer tick_env loaded) ! 0)
     = [Line_site ''MicrosoftDC'', Line_timestamp 1700000001, Line_throughput 800,
        Line_errors 2, Line_ber 1, Line_utilization 40, Line_link ''UP'', Line_blank]
   \<and> take 8 (drop 2 (printed (race_run tick_env torn_schedule (race_start (sites_data loaded)))))
       \<notin> set (site_history tick_env (sites_data loaded) 0)"
proof (intro conjI)
  show "take 8 (drop 2 (printed (race_run tick_env torn_schedule (race_start (sites_data loaded)))))
     = [Line_site ''MicrosoftDC'', Line_timestamp 1700000000, Line_throughput 800,
        Line_errors 2, Line_ber 1, Line_utilization 40, Line_link ''UP'', Line_blank]"
    by (rule torn_block)
  show "show_site (sites_data loaded ! 0)
     = [Line_site ''MicrosoftDC'', Line_timestamp 1700000000, Line_throughput 1000,
        Line_errors 0, Line_ber 0, Line_utilization 50, Line_link ''UP'', Line_blank]"
    unfolding loaded_site0 by (rule show_loaded_site0)
  show "show_site (sites_data (update_stats_timer tick_env loaded) ! 0)
     = [Line_site ''MicrosoftDC'', Line_timestamp 1700000001, Line_throughput 800,
        Line_errors 2, Line_ber 1, Line_utilization 40, Line_link ''UP'', Line_blank]"
    by (simp add: update_stats_timer_def ticked_site0 show_ticked_site0)
  show "take 8 (drop 2 (printed (race_run tick_env torn_schedule (race_start (sites_data loaded)))))
       \<notin> set (site_history tick_env (sites_data loaded) 0)"
    unfolding torn_block
  proof
    assume "[Line_site ''MicrosoftDC'', Line_timestamp 1700000000, Line_throughput 800,
        Line_errors 2, Line_ber 1, Line_utilization 40, Line_link ''UP'', Line_blank]
       \<in> set (site_history tick_env (sites_data loaded) 0)"
    then have "\<exists>w<Suc (6 * NUM_SITES).
        [Line_site ''MicrosoftDC'', Line_timestamp 1700000000, Line_throughput 800,
         Line_errors 2, Line_ber 1, Line_utilization 40, Line_link ''UP'', Line_blank]
        = show_site (writes tick_env w (sites_data loaded) ! 0)"
      by (auto simp: site_history_def simp del: upt_Suc)
    then obtain w where w: "w < Suc (6 * NUM_SITES)"
      and e: "[Line_site ''MicrosoftDC'', Line_timestamp 1700000000, Line_throughput 800,
         Line_errors 2, Line_ber 1, Line_utilization 40, Line_link ''UP'', Line_blank]
        = show_site (writes tick_env w (sites_data loaded) ! 0)"
      by blast
    from w have "w \<le> 6 * NUM_SITES" by simp
    from history_timestamp_first [OF this] e show False by simp
  qed
qed

section \<open>Results of \<^verbatim>\<open>proc_mmap\<close>\<close>

text \<open>
  Claim C2, as the code has it. \<^verbatim>\<open>proc_mmap\<close> returns the size error
  (\<^verbatim>\<open>-EINVAL\<close>) exactly when the requested length exceeds \<^verbatim>\<open>BUFFER_SIZE\<close>. A request
  that fits succeeds when \<^verbatim>\<open>remap_pfn_range\<close> returns \<open>0\<close> and fails with
  \<^verbatim>\<open>-EAGAIN\<close> otherwise.
\<close>

theorem proc_mmap_result:
  "(fst (proc_mmap page_shift e vma k) = Inl EINVAL
      \<longleftrightarrow> BUFFER_SIZE page_shift < vm_end vma - vm_start vma)
   \<and> (vm_end vma - vm_start vma \<le> BUFFER_SIZE page_shift \<longrightarrow>
        fst (proc_mmap page_shift e vma k) = (if remap_ret e = 0 then Inr () else Inl EAGAIN))"
  by (auto simp: proc_mmap_def Let_def)

theorem proc_mmap_result_witness:
  "vm_end one_page - vm_start one_page \<le> BUFFER_SIZE 12
   \<and> fst (proc_mmap 12 remap_works one_page loaded) = Inr ()"
proof -
  have h: "vm_end one_page - vm_start one_page \<le> BUFFER_SIZE 12"
    by (simp add: one_page_def BUFFER_SIZE_def PAGE_SIZE_def)
  have r: "remap_ret remap_works = 0" by (simp add: remap_works_def)
  show ?thesis using proc_mmap_result [of 12 remap_works one_page loaded] h r by simp
qed

text \<open>
  Claim C2 as stated fails: a one-page request fits the buffer and still fails, with
  \<^verbatim>\<open>-EAGAIN\<close>, when \<^verbatim>\<open>remap_pfn_range\<close> reports an error.
\<close>

theorem proc_mmap_fits_but_fails:
  "vm_end one_page - vm_start one_page \<le> BUFFER_SIZE 12
   \<and> fst (proc_mmap 12 remap_fails one_page loaded) = Inl EAGAIN"
  by (simp add: proc_mmap_def one_page_def remap_fails_def BUFFER_SIZE_def PAGE_SIZE_def Let_def)

section \<open>Counters across ticks\<close>

lemma counters_le_init: "counters_le 0 (init_sites clock)"
  by (simp add: counters_le_def init_sites_length init_sites_nth init_site_def)

lemma counters_le_tick:
  assumes "counters_le n s"
  shows "counters_le (Suc n) (update_sites env s)"
proof -
  have len: "length s = NUM_SITES" using assms by (simp add: counters_le_def)
  { fix i assume i: "i < NUM_SITES"
    have a: "unat (error_count (s ! i)) \<le> 2 * n" and b: "unat (ber_errors (s ! i)) \<le> n"
      using assms i by (simp_all add: counters_le_def)
    have "unat (error_count (update_site (env i) (s ! i))) \<le> 2 * Suc n"
      using unat_add_le [of "error_count (s ! i)" "rand_errors (env i) mod 3"]
        unat_mod3 [of "rand_errors (env i)"] a
      by (simp add: error_count_update_site)
    moreover have "unat (ber_errors (update_site (env i) (s ! i))) \<le> Suc n"
      using unat_add_le [of "ber_errors (s ! i)" "rand_ber (env i) mod 2"]
        unat_mod2 [of "rand_ber (env i)"] b
      by (simp add: ber_errors_update_site)
    ultimately have "unat (error_count (update_sites env s ! i)) \<le> 2 * Suc n
        \<and> unat (ber_errors (update_sites env s ! i)) \<le> Suc n"
      by (simp add: update_sites_nth [OF len i])
  }
  then show ?thesis by (simp add: counters_le_def update_sites_length len)
qed

lemma counters_le_ticks:
  "counters_le n s \<Longrightarrow> counters_le (n + length envs) (fold update_sites envs s)"
proof (induction envs arbitrary: n s)
  case Nil
  then show ?case by simp
next
  case (Cons env envs)
  from Cons.IH [OF counters_le_tick [OF Cons.prems, of env]] show ?case by simp
qed

text \<open>
  Claim C4, as the code has it. Start from a successful load and run fewer than \<open>2^31\<close>
  ticks. Then for every site the error counter and the BER counter of each snapshot
  are at most those of the next snapshot. (The counters are \<^verbatim>\<open>u32\<close>; with fewer than
  \<open>2^31\<close> ticks of at most \<open>+2\<close> each no addition wraps.)
\<close>

theorem counters_monotone_before_wrap:
  assumes ok: "fst (skma_fon_init e unloaded) = Inr ()"
    and i: "i < NUM_SITES" and n: "length envs < 2 ^ 31" and j: "j < length envs"
  shows "error_count (sites_data (run_ticks (take j envs) (snd (skma_fon_init e unloaded))) ! i)
           \<le> error_count (sites_data (run_ticks (take (Suc j) envs) (snd (skma_fon_init e unloaded))) ! i)
       \<and> ber_errors (sites_data (run_ticks (take j envs) (snd (skma_fon_init e unloaded))) ! i)
           \<le> ber_errors (sites_data (run_ticks (take (Suc j) envs) (snd (skma_fon_init e unloaded))) ! i)"
proof -
  let ?k = "snd (skma_fon_init e unloaded)"
  let ?s = "sites_data (run_ticks (take j envs) ?k)"
  have s: "?s = fold update_sites (take j envs) (init_sites (init_clock e))"
    by (simp add: sites_data_run_ticks skma_fon_init_ok [OF ok])
  have "counters_le (0 + length (take j envs)) ?s"
    unfolding s by (rule counters_le_ticks [OF counters_le_init])
  then have c: "counters_le j ?s" using j by (simp add: min_def)
  then have len: "length ?s = NUM_SITES" by (simp add: counters_le_def)
  have a: "unat (error_count (?s ! i)) \<le> 2 * j" and b: "unat (ber_errors (?s ! i)) \<le> j"
    using c i by (simp_all add: counters_le_def)
  have t: "take (Suc j) envs = take j envs @ [envs ! j]"
    using j by (simp add: take_Suc_conv_app_nth)
  have nxt: "sites_data (run_ticks (take (Suc j) envs) ?k) ! i = update_site ((envs ! j) i) (?s ! i)"
    unfolding t run_ticks_snoc by (simp add: update_stats_timer_def update_sites_nth [OF len i])
  have j31: "Suc j < 2 ^ 31" using j n by simp
  have "unat (error_count (?s ! i)) + unat (rand_errors ((envs ! j) i) mod 3) < 2 ^ 32"
    using a j31 unat_mod3 [of "rand_errors ((envs ! j) i)"] by simp
  then have e: "error_count (?s ! i) \<le> error_count (?s ! i) + rand_errors ((envs ! j) i) mod 3"
    by (rule word_le_add_small)
  have "unat (ber_errors (?s ! i)) + unat (rand_ber ((envs ! j) i) mod 2) < 2 ^ 32"
    using b j31 unat_mod2 [of "rand_ber ((envs ! j) i)"] by simp
  then have f: "ber_errors (?s ! i) \<le> ber_errors (?s ! i) + rand_ber ((envs ! j) i) mod 2"
    by (rule word_le_add_small)
  show ?thesis unfolding nxt using e f
    by (simp add: error_count_update_site ber_errors_update_site)
qed

theorem counters_monotone_before_wrap_witness:
  "fst (skma_fon_init boot_env unloaded) = Inr () \<and> 0 < NUM_SITES
   \<and> length [tick_env, tick_env] < 2 ^ 31 \<and> 1 < length [tick_env, tick_env]
   \<and> error_count (sites_data (run_ticks (take 1 [tick_env, tick_env]) (snd (skma_fon_init boot_env unloaded))) ! 0)
       \<le> error_count (sites_data (run_ticks (take (Suc 1) [tick_env, tick_env]) (snd (skma_fon_init boot_env unloaded))) ! 0)
   \<and> ber_errors (sites_data (run_ticks (take 1 [tick_env, tick_env]) (snd (skma_fon_init boot_env unloaded))) ! 0)
       \<le> ber_errors (sites_data (run_ticks (take (Suc 1) [tick_env, tick_env]) (snd (skma_fon_init boot_env unloaded))) ! 0)"
proof -
  have h: "fst (skma_fon_init boot_env unloaded) = Inr ()"
    by (simp add: skma_fon_init_def boot_env_def Let_def)
  have i: "0 < NUM_SITES" by (simp add: NUM_SITES_def)
  have n: "length [tick_env, tick_env] < 2 ^ 31" by simp
  have j: "1 < length [tick_env, tick_env]" by simp
  show ?thesis using h i n j counters_monotone_before_wrap [OF h i n j] by blast
qed

lemma error_count_wrap_ticks:
  "length s = NUM_SITES \<Longrightarrow>
     error_count (fold update_sites (replicate n tick_env) s ! 0) = error_count (s ! 0) + 2 * of_nat n"
proof (induction n arbitrary: s)
  case 0
  then show ?case by simp
next
  case (Suc n)
  have i: "0 < NUM_SITES" by (simp add: NUM_SITES_def)
  have len: "length (update_sites tick_env s) = NUM_SITES" using Suc.prems by (simp add: update_sites_length)
  have "error_count (update_sites tick_env s ! 0) = error_count (s ! 0) + 2"
    by (simp add: update_sites_nth [OF Suc.prems i] error_count_update_site tick_env_def)
  with Suc.IH [OF len] show ?case by (simp add: algebra_simps)
qed

text \<open>
  Claim C4 as stated fails. Starting from the loaded module, \<open>2^31\<close> ticks that each draw
  an increment of \<open>2\<close> take the error counter of site 0 from \<open>2^32 - 2\<close> back to \<open>0\<close>: the
  last snapshot is below the one before it.
\<close>

theorem error_count_wraps:
  "error_count (sites_data (run_ticks (replicate 2147483648 tick_env) loaded) ! 0)
     < error_count (sites_data (run_ticks (replicate 2147483647 tick_env) loaded) ! 0)"
proof -
  have len: "length (sites_data loaded) = NUM_SITES" by (simp add: loaded_sites init_sites_length)
  have z: "error_count (sites_data loaded ! 0) = 0"
    by (simp add: loaded_sites init_sites_nth NUM_SITES_def init_site_def)
  have a: "error_count (sites_data (run_ticks (replicate 2147483648 tick_env) loaded) ! 0) = 0"
    unfolding sites_data_run_ticks error_count_wrap_ticks [OF len] z by simp
  have b: "error_count (sites_data (run_ticks (replicate 2147483647 tick_env) loaded) ! 0) = 0xFFFFFFFE"
    unfolding sites_data_run_ticks error_count_wrap_ticks [OF len] z by simp
  show ?thesis unfolding a b by simp
qed

section \<open>Utilization follows throughput\<close>

lemma util_ok_init: "util_ok (init_sites clock)"
  by (simp add: util_ok_def init_sites_length init_sites_nth init_site_def calc_utilization_1000)

lemma util_ok_tick: "util_ok s \<Longrightarrow> util_ok (update_sites env s)"
  by (simp add: util_ok_def update_sites_length update_sites_nth util_update_site)

lemma util_ok_ticks: "util_ok s \<Longrightarrow> util_ok (fold update_sites envs s)"
  by (induction envs arbitrary: s) (simp_all add: util_ok_tick)

lemma throughput_update_site:
  "throughput_gbps (update_site e r) = 800 + rand_throughput e mod 1200"
  by (simp add: update_site_defs)

lemma utilization_update_site_eq:
  "utilization (update_site e r) = calc_utilization (800 + rand_throughput e mod 1200)"
  by (simp add: update_site_defs)

text \<open>
  Claim C5, as the code has it. A timer callback on a buffer of \<^verbatim>\<open>NUM_SITES\<close> records,
  whatever the records held before, leaves every site with the throughput it has just
  drawn and with the utilization computed from that throughput. After a successful load
  and any number of completed callbacks, every site's utilization is the value the
  utilization expression gives for that record's current throughput, and it differs from
  the exact \<open>throughput / 2000 * 100\<close> by at most the relative error \<open>2^-23\<close> of one
  binary32 unit in the last place. Nothing is said of the buffer while a callback is
  under way.
\<close>

theorem utilization_recomputed:
  assumes ok: "fst (skma_fon_init e unloaded) = Inr ()" and i: "i < NUM_SITES"
    and len: "length (sites_data k) = NUM_SITES"
  shows "throughput_gbps (sites_data (update_stats_timer env k) ! i)
           = 800 + rand_throughput (env i) mod 1200
       \<and> utilization (sites_data (update_stats_timer env k) ! i)
           = calc_utilization (800 + rand_throughput (env i) mod 1200)
       \<and> utilization (sites_data (run_ticks envs (snd (skma_fon_init e unloaded))) ! i)
           = calc_utilization (throughput_gbps
               (sites_data (run_ticks envs (snd (skma_fon_init e unloaded))) ! i))
       \<and> \<bar>utilization (sites_data (run_ticks envs (snd (skma_fon_init e unloaded))) ! i)
             - of_int (uint (throughput_gbps
                 (sites_data (run_ticks envs (snd (skma_fon_init e unloaded))) ! i))) / 2000 * 100\<bar>
           \<le> of_int (uint (throughput_gbps
                 (sites_data (run_ticks envs (snd (skma_fon_init e unloaded))) ! i))) / 2000 * 100
               / 8388608"
proof -
  let ?s = "sites_data (run_ticks envs (snd (skma_fon_init e unloaded)))"
  have t: "sites_data (update_stats_timer env k) ! i = update_site (env i) (sites_data k ! i)"
    by (simp add: update_stats_timer_def update_sites_nth [OF len i])
  have "?s = fold update_sites envs (init_sites (init_clock e))"
    by (simp add: sites_data_run_ticks skma_fon_init_ok [OF ok])
  then have "util_ok ?s" by (simp add: util_ok_ticks util_ok_init)
  then have u: "utilization (?s ! i) = calc_utilization (throughput_gbps (?s ! i))"
    using i by (simp add: util_ok_def)
  show ?thesis
    unfolding u t throughput_update_site utilization_update_site_eq
    using calc_utilization_tolerance [of "throughput_gbps (?s ! i)"] by simp
qed

theorem utilization_recomputed_witness:
  "fst (skma_fon_init boot_env unloaded) = Inr () \<and> 0 < NUM_SITES
   \<and> length (sites_data (unloaded\<lparr>sites_data := replicate 4 saturated_site\<rparr>)) = NUM_SITES
   \<and> throughput_gbps (sites_data (update_stats_timer tick_env
         (unloaded\<lparr>sites_data := replicate 4 saturated_site\<rparr>)) ! 0) = 800
   \<and> utilization (sites_data (update_stats_timer tick_env
         (unloaded\<lparr>sites_data := replicate 4 saturated_site\<rparr>)) ! 0) = 40
   \<and> utilization (sites_data (run_ticks [tick_env] (snd (skma_fon_init boot_env unloaded))) ! 0)
       = calc_utilization (throughput_gbps
           (sites_data (run_ticks [tick_env] (snd (skma_fon_init boot_env unloaded))) ! 0))"
proof -
  have h: "fst (skma_fon_init boot_env unloaded) = Inr ()"
    by (simp add: skma_fon_init_def boot_env_def Let_def)
  have i: "0 < NUM_SITES" by (simp add: NUM_SITES_def)
  have l: "length (sites_data (unloaded\<lparr>sites_data := replicate 4 saturated_site\<rparr>)) = NUM_SITES"
    by (simp add: NUM_SITES_def)
  have r: "800 + rand_throughput (tick_env 0) mod 1200 = (800 :: u32)"
    by (simp add: tick_env_def)
  note t = utilization_recomputed [OF h i l, of tick_env "[tick_env]"]
  have a: "throughput_gbps (sites_data (update_stats_timer tick_env
         (unloaded\<lparr>sites_data := replicate 4 saturated_site\<rparr>)) ! 0) = 800"
    using t unfolding r by blast
  have b: "utilization (sites_data (update_stats_timer tick_env
         (unloaded\<lparr>sites_data := replicate 4 saturated_site\<rparr>)) ! 0) = 40"
    using t unfolding r calc_utilization_800 by blast
  have d: "utilization (sites_data (run_ticks [tick_env] (snd (skma_fon_init boot_env unloaded))) ! 0)
       = calc_utilization (throughput_gbps
           (sites_data (run_ticks [tick_env] (snd (skma_fon_init boot_env unloaded))) ! 0))"
    using t by blast
  show ?thesis using h i l a b d by blast
qed

lemma stale_run:
  "race_run tick_env stale_schedule (race_start (sites_data loaded))
     = \<lparr>store = writes tick_env 2 (sites_data loaded), writes_done = 2, prints_done = 34,
        printed = proc_show_lines (writes tick_env 2 (sites_data loaded))\<rparr>"
proof -
  let ?c0 = "race_start (sites_data loaded)"
  let ?s = "writes tick_env 2 (sites_data loaded)"
  have a0: "race_run tick_env (replicate 2 Updater) ?c0
      = ?c0\<lparr>writes_done := writes_done ?c0 + 2,
           store := fold (write_step tick_env) [writes_done ?c0..<writes_done ?c0 + 2] (store ?c0)\<rparr>"
    by (rule race_run_updaters) (simp add: race_start_def NUM_SITES_def)
  have a: "race_run tick_env (replicate 2 Updater) ?c0 = ?c0\<lparr>writes_done := 2, store := ?s\<rparr>"
    unfolding a0 by (simp add: race_start_def writes_def numeral_2_eq_2)
  let ?c1 = "?c0\<lparr>writes_done := 2, store := ?s\<rparr>"
  have b: "race_run tick_env (replicate 34 Reader) ?c1
      = ?c1\<lparr>prints_done := 34, printed := proc_show_lines ?s\<rparr>"
    using race_run_readers [of ?c1 34 tick_env]
    by (simp add: race_start_def NUM_SITES_def proc_show_lines_length)
  show ?thesis unfolding stale_schedule_def race_run_append a b by (simp add: race_start_def)
qed

lemma stale_site0:
  "writes tick_env 2 (sites_data loaded) ! 0
     = site_prefix (tick_env 0) 2 (init_site 0 1700000000 zero_site)"
proof -
  have i: "0 < NUM_SITES" and w: "2 \<le> 6 * NUM_SITES" by (simp_all add: NUM_SITES_def)
  show ?thesis using writes_nth [OF loaded_length w i, of tick_env] by (simp add: loaded_site0)
qed

lemma show_stale_site0:
  "show_site (site_prefix (tick_env 0) 2 (init_site 0 1700000000 zero_site))
     = [Line_site ''MicrosoftDC'', Line_timestamp 1700000001, Line_throughput 800,
        Line_errors 0, Line_ber 0, Line_utilization 50, Line_link ''UP'', Line_blank]"
  by (simp add: show_site_def site_prefix_def site_steps_def init_site_def zero_site_def
      site_names_def set_timestamp_def set_throughput_def tick_env_def)

text \<open>
  Claim C5 as stated fails for the states inside a callback. After the first two
  assignments of a callback on the loaded module, site 0 holds the new throughput
  \<open>800\<close> with the old utilization \<open>50\<close>, ten points away from \<open>800 / 2000 * 100 = 40\<close>,
  and a report printed at that moment shows exactly this record.
\<close>

theorem utilization_stale_mid_tick:
  "throughput_gbps (store (race_run tick_env stale_schedule (race_start (sites_data loaded))) ! 0)
     = 800
   \<and> utilization (store (race_run tick_env stale_schedule (race_start (sites_data loaded))) ! 0)
     = 50
   \<and> of_int (uint (throughput_gbps
         (store (race_run tick_env stale_schedule (race_start (sites_data loaded))) ! 0)))
        / 2000 * 100 / 8388608
     < \<bar>utilization (store (race_run tick_env stale_schedule (race_start (sites_data loaded))) ! 0)
        - of_int (uint (throughput_gbps
            (store (race_run tick_env stale_schedule (race_start (sites_data loaded))) ! 0)))
          / 2000 * 100\<bar>
   \<and> take 8 (drop 2 (printed (race_run tick_env stale_schedule (race_start (sites_data loaded)))))
     = [Line_site ''MicrosoftDC'', Line_timestamp 1700000001, Line_throughput 800,
        Line_errors 0, Line_ber 0, Line_utilization 50, Line_link ''UP'', Line_blank]"
proof -
  have tp: "throughput_gbps (site_prefix (tick_env 0) 2 (init_site 0 1700000000 zero_site)) = 800"
    by (simp add: site_prefix_def site_steps_def init_site_def set_timestamp_def
        set_throughput_def tick_env_def)
  have ut: "utilization (site_prefix (tick_env 0) 2 (init_site 0 1700000000 zero_site)) = 50"
    by (simp add: site_prefix_def site_steps_def init_site_def set_timestamp_def
        set_throughput_def tick_env_def)
  have pr: "take 8 (drop 2 (proc_show_lines (writes tick_env 2 (sites_data loaded))))
      = show_site (writes tick_env 2 (sites_data loaded) ! 0)"
    unfolding proc_show_lines_explicit by (simp add: show_site_length)
  show ?thesis
    unfolding stale_run
    by (simp add: stale_site0 tp ut pr show_stale_site0)
qed

section \<open>One tick on one record\<close>

text \<open>
  Claim C6, as the code has it. After the loop body has run on a record, the throughput
  is in \<open>[800, 2000)\<close>; the error counter is the previous value plus a draw in \<open>[0, 3)\<close>,
  modulo \<open>2^32\<close>; the BER counter is the previous value plus a draw in \<open>[0, 2)\<close>, modulo
  \<open>2^32\<close>; the link status is \<open>1\<close> (up); the timestamp is the wall-clock second read in
  this iteration, and it is at least the previous timestamp exactly when the wall clock
  has not gone below it.
\<close>

theorem update_site_effect:
  "800 \<le> uint (throughput_gbps (update_site e r))
   \<and> uint (throughput_gbps (update_site e r)) < 2000
   \<and> unat (error_count (update_site e r))
       = (unat (error_count r) + unat (rand_errors e mod 3)) mod 2 ^ 32
   \<and> unat (rand_errors e mod 3) < 3
   \<and> unat (ber_errors (update_site e r))
       = (unat (ber_errors r) + unat (rand_ber e mod 2)) mod 2 ^ 32
   \<and> unat (rand_ber e mod 2) < 2
   \<and> link_status (update_site e r) = 1
   \<and> timestamp (update_site e r) = now e
   \<and> (timestamp r \<le> timestamp (update_site e r) \<longleftrightarrow> timestamp r \<le> now e)"
  using throughput_range [of "rand_throughput e"] unat_mod3 [of "rand_errors e"]
    unat_mod2 [of "rand_ber e"]
  by (simp add: update_site_defs unat_word_ariths)

theorem update_site_effect_witness:
  "800 \<le> uint (throughput_gbps (update_site back_input saturated_site))
   \<and> uint (throughput_gbps (update_site back_input saturated_site)) < 2000
   \<and> unat (error_count (update_site back_input saturated_site))
       = (unat (error_count saturated_site) + unat (rand_errors back_input mod 3)) mod 2 ^ 32
   \<and> unat (rand_errors back_input mod 3) < 3
   \<and> unat (ber_errors (update_site back_input saturated_site))
       = (unat (ber_errors saturated_site) + unat (rand_ber back_input mod 2)) mod 2 ^ 32
   \<and> unat (rand_ber back_input mod 2) < 2
   \<and> link_status (update_site back_input saturated_site) = 1
   \<and> timestamp (update_site back_input saturated_site) = now back_input
   \<and> (timestamp saturated_site \<le> timestamp (update_site back_input saturated_site)
        \<longleftrightarrow> timestamp saturated_site \<le> now back_input)"
  by (rule update_site_effect)

text \<open>
  Claim C6 as stated fails on a record whose counters are at \<open>2^32 - 1\<close>, updated when
  the wall clock has been set back: the timestamp and both counters decrease.
\<close>

theorem update_site_not_monotone:
  "timestamp (update_site back_input saturated_site) < timestamp saturated_site
   \<and> error_count (update_site back_input saturated_site) < error_count saturated_site
   \<and> ber_errors (update_site back_input saturated_site) < ber_errors saturated_site"
  by (simp add: update_site_defs back_input_def saturated_site_def)

section \<open>Failed startup\<close>

text \<open>
  Claim C7. If \<^verbatim>\<open>kmalloc\<close>, \<^verbatim>\<open>proc_mkdir\<close> or \<^verbatim>\<open>proc_create\<close> fails,
  \<^verbatim>\<open>skma_fon_init\<close> returns \<^verbatim>\<open>-ENOMEM\<close> and leaves the buffer not allocated, no proc
  path registered and the timer not armed.
\<close>

theorem skma_fon_init_failure_unwinds:
  "\<not> kmalloc_ok e \<or> \<not> proc_mkdir_ok e \<or> \<not> proc_create_ok e \<Longrightarrow>
     fst (skma_fon_init e unloaded) = Inl ENOMEM
     \<and> \<not> buffer_live (snd (skma_fon_init e unloaded))
     \<and> procfs (snd (skma_fon_init e unloaded)) = []
     \<and> \<not> timer_pending (snd (skma_fon_init e unloaded))"
  by (auto simp: skma_fon_init_def unloaded_def kfree_buffer_def remove_proc_entry_def Let_def)

theorem skma_fon_init_failure_unwinds_witness:
  "\<not> proc_create_ok no_proc_entry
   \<and> fst (skma_fon_init no_proc_entry unloaded) = Inl ENOMEM
   \<and> \<not> buffer_live (snd (skma_fon_init no_proc_entry unloaded))
   \<and> procfs (snd (skma_fon_init no_proc_entry unloaded)) = []
   \<and> \<not> timer_pending (snd (skma_fon_init no_proc_entry unloaded))"
proof -
  have h: "\<not> kmalloc_ok no_proc_entry \<or> \<not> proc_mkdir_ok no_proc_entry \<or> \<not> proc_create_ok no_proc_entry"
    by (simp add: no_proc_entry_def)
  have c: "\<not> proc_create_ok no_proc_entry" by (simp add: no_proc_entry_def)
  show ?thesis using c skma_fon_init_failure_unwinds [OF h] by blast
qed

section \<open>Site names\<close>

lemma map_site_name_fold:
  "map site_name (fold (\<lambda>i s. s[i := update_site (env i) (s ! i)]) js s) = map site_name s"
proof (induction js arbitrary: s)
  case Nil
  then show ?case by simp
next
  case (Cons j js)
  have "map site_name (s[j := update_site (env j) (s ! j)]) = map site_name s"
  proof (cases "j < length s")
    case True
    then show ?thesis by (simp add: map_update site_name_update_site list_update_same_conv)
  next
    case False
    then show ?thesis by (simp add: list_update_beyond)
  qed
  with Cons show ?case by simp
qed

lemma map_site_name_update_sites: "map site_name (update_sites env s) = map site_name s"
  by (simp add: update_sites_def map_site_name_fold)

lemma map_site_name_ticks: "map site_name (fold update_sites envs s) = map site_name s"
  by (induction envs arbitrary: s) (simp_all add: map_site_name_update_sites)

lemma map_site_name_init: "map site_name (init_sites clock) = site_names"
  by (simp add: init_sites_def upt_NUM_SITES NUM_SITES_def numeral_eq_Suc init_site_def site_names_def)

text \<open>
  Claim C8. A timer callback leaves the name of every record, position by position, as
  it was; and after a successful load followed by any number of ticks the names, in
  index order, are the entries of \<^verbatim>\<open>site_names\<close>.
\<close>

theorem site_names_fixed:
  "map site_name (sites_data (update_stats_timer env k)) = map site_name (sites_data k)
   \<and> (fst (skma_fon_init e unloaded) = Inr () \<longrightarrow>
        map site_name (sites_data (run_ticks envs (snd (skma_fon_init e unloaded)))) = site_names)"
  by (simp add: update_stats_timer_def map_site_name_update_sites sites_data_run_ticks
      map_site_name_ticks skma_fon_init_ok map_site_name_init)

theorem site_names_fixed_witness:
  "fst (skma_fon_init boot_env unloaded) = Inr ()
   \<and> map site_name (sites_data (run_ticks [tick_env, tick_env] (snd (skma_fon_init boot_env unloaded))))
       = [''MicrosoftDC'', ''Dallas'', ''Dobbins'', ''Stone'']"
proof -
  have h: "fst (skma_fon_init boot_env unloaded) = Inr ()"
    by (simp add: skma_fon_init_def boot_env_def Let_def)
  show ?thesis
    using h site_names_fixed [of tick_env unloaded boot_env "[tick_env, tick_env]"]
    by (simp add: site_names_def)
qed

section \<open>Rejection of oversized mappings\<close>

text \<open>
  Claim C9. A mapping request whose length exceeds \<^verbatim>\<open>BUFFER_SIZE\<close> is rejected with
  the size error (\<^verbatim>\<open>-EINVAL\<close>), and the module state, records and installed mappings
  included, is exactly what it was before the call.
\<close>

theorem proc_mmap_oversized_rejected:
  "vm_end vma - vm_start vma > BUFFER_SIZE page_shift \<Longrightarrow>
     proc_mmap page_shift e vma k = (Inl EINVAL, k)"
  by (simp add: proc_mmap_def)

theorem proc_mmap_oversized_rejected_witness:
  "vm_end five_pages - vm_start five_pages > BUFFER_SIZE 12
   \<and> proc_mmap 12 remap_works five_pages loaded = (Inl EINVAL, loaded)"
proof -
  have h: "vm_end five_pages - vm_start five_pages > BUFFER_SIZE 12"
    by (simp add: five_pages_def BUFFER_SIZE_def PAGE_SIZE_def)
  show ?thesis using h proc_mmap_oversized_rejected [OF h, of remap_works loaded] by simp
qed

section \<open>Range of the utilization after a tick\<close>

text \<open>
  Claim C10. After a timer callback on a buffer of \<^verbatim>\<open>NUM_SITES\<close> records, the
  utilization of every record is at least \<open>40\<close> and below \<open>100\<close>.
\<close>

theorem utilization_bounds_after_tick:
  "length (sites_data k) = NUM_SITES \<Longrightarrow> i < NUM_SITES \<Longrightarrow>
     40 \<le> utilization (sites_data (update_stats_timer env k) ! i)
     \<and> utilization (sites_data (update_stats_timer env k) ! i) < 100"
  by (simp add: update_stats_timer_def update_sites_nth utilization_update_site)

theorem utilization_bounds_after_tick_witness:
  "length (sites_data loaded) = NUM_SITES \<and> 2 < NUM_SITES
   \<and> 40 \<le> utilization (sites_data (update_stats_timer tick_env loaded) ! 2)
   \<and> utilization (sites_data (update_stats_timer tick_env loaded) ! 2) < 100"
proof -
  have l: "length (sites_data loaded) = NUM_SITES" by (simp add: loaded_sites init_sites_length)
  have i: "2 < NUM_SITES" by (simp add: NUM_SITES_def)
  show ?thesis using l i utilization_bounds_after_tick [OF l i, of tick_env] by simp
qed

end
